theory Spec2Isabelle
  imports Complex_Main "HOL-Library.Product_Lexorder"
begin

section \<open>Catalog cross-matching: \<open>join_catalogs\<close>\<close>

text \<open>
  The notebook on standard photometry defines one function of its own:
  \<^verbatim>\<open>
  def join_catalogs(index_table, left_table, right_table):

      matched = table.hstack([index_table, left_table,
                              right_table[index_table['index']]])
      matched.sort(['index', 'distance'])

      index = matched["index"]
      good_match = [True]
      good_match += [star != oldstar for star, oldstar in zip(index, index[1:])]
      nearby = matched['distance'] < coord.Angle('3 arcsec').degree

      result = matched[good_match * nearby]
      del result['index', 'distance']

      return result
  \<close>
  \<open>index_table\<close> is built by the caller from \<open>match_to_catalog_sky\<close>: one row per record of
  the left catalog, holding the position of its nearest record in the right catalog
  (column \<open>index\<close>) and the angular separation in degrees (column \<open>distance\<close>).
\<close>

subsection \<open>Tables and errors\<close>

text \<open>
  A table is a list of column names and a list of rows, each row a list of cells in the
  order of the columns. The cells of the two catalogs are of one type \<open>'a\<close> (the values
  are dynamically typed in the source). The index table has the fixed schema given by the
  caller (\<open>names=['index', 'distance', '3d']\<close> followed by \<open>del pos_by['3d']\<close>), so its
  rows are pairs of a natural number and a separation. Separations are floating point
  numbers in the source and real numbers here.
\<close>

record 'a table =
  colnames :: "string list"
  rows :: "'a list list"

type_synonym index_row = "nat \<times> real"

text \<open>
  The exceptions of the library calls: \<open>IndexError\<close> from the row lookup in the right
  table, \<open>TableMergeError\<close> from \<open>hstack\<close>, \<open>ValueError\<close> from \<open>sort\<close> on a column that
  the table does not have and from the nearest-neighbour query on an empty catalog, and
  \<open>KeyError\<close> from reading a row under a name that is not a column. \<open>MaskedPadding\<close> is
  no exception: when the stacked tables differ in length, as the index table and the left
  table may, \<open>hstack\<close> (an outer join) pads the shorter ones with masked rows, and the
  source goes on to return a table or to raise \<open>IndexError\<close>; what sorting and comparing
  masked cells yields is not modelled, and the functions below stop there with
  \<open>MaskedPadding\<close>. The index tables that the callers build have one row per left record.
\<close>

datatype error = IndexError | TableMergeError | ValueError | KeyError | MaskedPadding

text \<open>
  A row of \<open>matched\<close>: the two cells of the index table, and the cells that come from the
  left table and from the selected row of the right table. The payload is a type
  parameter; in \<open>join_catalogs\<close> it is the pair of the left and the right cells.
\<close>

record 'p matched_row =
  index :: nat
  distance :: real
  payload :: 'p

record 'a matched_table =
  mcolnames :: "string list"
  mrows :: "('a list \<times> 'a list) matched_row list"

subsection \<open>The library operations\<close>

text \<open>
  \<open>right_table[index_table['index']]\<close>: the rows of the right table at the given
  positions, in that order; a position outside the table raises \<open>IndexError\<close>. The
  positions come from a nearest-neighbour query and are never negative.
\<close>

definition take_rows :: "'a table \<Rightarrow> nat list \<Rightarrow> error + 'a table" where
  "take_rows t ixs =
     (if list_all (\<lambda>i. i < length (rows t)) ixs
      then Inr (t\<lparr>rows := map (\<lambda>i. rows t ! i) ixs\<rparr>)
      else Inl IndexError)"

text \<open>
  \<open>table.hstack\<close> names the output columns as follows: a column whose name occurs in
  another of the stacked tables is renamed to \<open>name_k\<close>, where \<open>k\<close> is the position of its
  table in the argument list, counted from one; any other column keeps its name. When two
  output columns end up with one name, \<open>hstack\<close> raises \<open>TableMergeError\<close>.
\<close>

definition uniq_col_name :: "string \<Rightarrow> string list \<Rightarrow> string \<Rightarrow> string" where
  "uniq_col_name table_name others name =
     (if name \<in> set others then name @ ''_'' @ table_name else name)"

definition hstack_colnames ::
  "string list \<Rightarrow> string list \<Rightarrow> string list \<Rightarrow> error + string list" where
  "hstack_colnames a b c =
     (let out = map (uniq_col_name ''1'' (b @ c)) a
              @ map (uniq_col_name ''2'' (a @ c)) b
              @ map (uniq_col_name ''3'' (a @ b)) c
      in if distinct out then Inr out else Inl TableMergeError)"

text \<open>
  \<open>table.hstack([index_table, left_table, right_rows])\<close>: the column names first, then
  the rows side by side. In \<open>join_catalogs\<close> the third table has one row per row of the
  index table.
\<close>

definition hstack ::
  "index_row list \<Rightarrow> 'a table \<Rightarrow> 'a table \<Rightarrow> error + 'a matched_table" where
  "hstack index_table left_table right_rows =
     (case hstack_colnames [''index'', ''distance''] (colnames left_table) (colnames right_rows) of
        Inl e \<Rightarrow> Inl e
      | Inr names \<Rightarrow>
          if length (rows left_table) \<noteq> length index_table
             \<or> length (rows right_rows) \<noteq> length index_table
          then Inl MaskedPadding
          else Inr \<lparr>mcolnames = names,
                    mrows = map (\<lambda>((i, d), l, r). \<lparr>index = i, distance = d, payload = (l, r)\<rparr>)
                              (zip index_table (zip (rows left_table) (rows right_rows)))\<rparr>)"

text \<open>
  \<open>matched.sort(['index', 'distance'])\<close> orders the rows by the pair (index, distance),
  ascending, and raises \<open>ValueError\<close> when one of the two is not a column of the table.
  Rows that agree on both keys are kept in their former order here (a stable sort). The
  sort of the source is not stable, so among such rows it may put another one first; no
  statement below says which of them comes first.
\<close>

definition sort_rows :: "'p matched_row list \<Rightarrow> 'p matched_row list" where
  "sort_rows m = sort_key (\<lambda>c. (index c, distance c)) m"

definition sort_table :: "'a matched_table \<Rightarrow> error + 'a matched_table" where
  "sort_table m =
     (if ''index'' \<in> set (mcolnames m) \<and> ''distance'' \<in> set (mcolnames m)
      then Inr (m\<lparr>mrows := sort_rows (mrows m)\<rparr>)
      else Inl ValueError)"

subsection \<open>The masks\<close>

text \<open>
  \<open>good_match = [True] + [star != oldstar for star, oldstar in zip(index, index[1:])]\<close>.
  \<open>index[1:]\<close> of an empty column is empty, as \<open>tl []\<close> is.
\<close>

definition good_match :: "nat list \<Rightarrow> bool list" where
  "good_match ix = [True] @ map (\<lambda>(star, oldstar). star \<noteq> oldstar) (zip ix (tl ix))"

text \<open>\<open>nearby = matched['distance'] < sep\<close>, with \<open>sep\<close> the cutoff in degrees.\<close>

definition nearby :: "real \<Rightarrow> real list \<Rightarrow> bool list" where
  "nearby sep ds = map (\<lambda>d. d < sep) ds"

text \<open>
  \<open>good_match * nearby\<close> multiplies a list with an array, element by element. The two
  have the same length except on the empty table, where the one-element list is broadcast
  against the empty array and the product is empty, which is also what \<open>zip\<close> gives.
\<close>

definition mask_mult :: "bool list \<Rightarrow> bool list \<Rightarrow> bool list" where
  "mask_mult g n = map (\<lambda>(a, b). a \<and> b) (zip g n)"

text \<open>\<open>matched[mask]\<close>: the rows at which the mask holds, in order.\<close>

definition mask_select :: "'a list \<Rightarrow> bool list \<Rightarrow> 'a list" where
  "mask_select xs msk = map fst (filter snd (zip xs msk))"

subsection \<open>The function\<close>

text \<open>
  \<open>matched[good_match * nearby]\<close>, on the rows of the sorted table: the body of the
  function between \<open>sort\<close> and \<open>del\<close>, with the cutoff as a parameter.
\<close>

definition select_rows :: "real \<Rightarrow> 'p matched_row list \<Rightarrow> 'p matched_row list" where
  "select_rows sep matched =
     mask_select matched
       (mask_mult (good_match (map index matched)) (nearby sep (map distance matched)))"

text \<open>\<open>del result['index', 'distance']\<close> removes the two columns by name.\<close>

definition del_index_distance :: "string list \<Rightarrow> string list" where
  "del_index_distance names = filter (\<lambda>n. n \<noteq> ''index'' \<and> n \<noteq> ''distance'') names"

definition merged_row :: "('a list \<times> 'a list) matched_row \<Rightarrow> 'a list" where
  "merged_row c = fst (payload c) @ snd (payload c)"

text \<open>
  \<open>join_catalogs\<close> with the cutoff as a parameter \<open>sep\<close> (in degrees) in place of the
  constant of the source.
\<close>

definition join_catalogs_with ::
  "real \<Rightarrow> index_row list \<Rightarrow> 'a table \<Rightarrow> 'a table \<Rightarrow> error + 'a table" where
  "join_catalogs_with sep index_table left_table right_table =
     (case take_rows right_table (map fst index_table) of
        Inl e \<Rightarrow> Inl e
      | Inr right_rows \<Rightarrow>
          (case hstack index_table left_table right_rows of
             Inl e \<Rightarrow> Inl e
           | Inr stacked \<Rightarrow>
               (case sort_table stacked of
                  Inl e \<Rightarrow> Inl e
                | Inr matched \<Rightarrow>
                    Inr \<lparr>colnames = del_index_distance (mcolnames matched),
                         rows = map merged_row (select_rows sep (mrows matched))\<rparr>)))"

text \<open>
  \<open>coord.Angle('3 arcsec').degree\<close>: three arc seconds in degrees, as the double that the
  conversion gives, \<open>3.0\<close> times the double nearest to \<open>1 / 3600\<close>. It is
  \<open>3843071682022823 / 2 ^ 62\<close>, just below \<open>3 / 3600\<close>.
\<close>

definition arcsec3 :: real where
  "arcsec3 = 3843071682022823 / 4611686018427387904"

definition join_catalogs :: "index_row list \<Rightarrow> 'a table \<Rightarrow> 'a table \<Rightarrow> error + 'a table" where
  "join_catalogs index_table left_table right_table =
     join_catalogs_with arcsec3 index_table left_table right_table"

subsection \<open>Tracing the result back to the left table\<close>

text \<open>
  The rows of the result do not say which left record they come from. To state which
  records win, the same sort and the same masks are run on the index table alone, each
  row carrying as payload its row number, which is the row number of the left record it
  belongs to. \<open>dedup_positions\<close> are the left records kept by \<open>good_match\<close> alone,
  \<open>winners\<close> the left records of the rows of the result, in the order of the result.
\<close>

definition position_rows :: "index_row list \<Rightarrow> nat matched_row list" where
  "position_rows index_table =
     map (\<lambda>((i, d), p). \<lparr>index = i, distance = d, payload = p\<rparr>)
       (zip index_table [0..<length index_table])"

definition dedup_positions :: "index_row list \<Rightarrow> nat list" where
  "dedup_positions index_table =
     (let matched = sort_rows (position_rows index_table)
      in map payload (mask_select matched (good_match (map index matched))))"

definition winners :: "real \<Rightarrow> index_row list \<Rightarrow> nat list" where
  "winners sep index_table =
     map payload (select_rows sep (sort_rows (position_rows index_table)))"

text \<open>Auxiliary functions of the proofs: a change of payload, and the rows that
  \<open>good_match\<close> keeps after a row of index \<open>prev\<close>, by recursion.\<close>

definition with_payload :: "('p \<Rightarrow> 'q) \<Rightarrow> 'p matched_row \<Rightarrow> 'q matched_row" where
  "with_payload f c = \<lparr>index = index c, distance = distance c, payload = f (payload c)\<rparr>"

fun firsts :: "nat \<Rightarrow> 'p matched_row list \<Rightarrow> 'p matched_row list" where
  "firsts prev [] = []"
| "firsts prev (c # cs) = (if prev \<noteq> index c then [c] else []) @ firsts (index c) cs"

subsection \<open>Reading a cell of a row by column name\<close>

text \<open>
  \<open>row[name]\<close> for a row of a table with the given column names: the cell at the position
  of the name, \<open>KeyError\<close> when there is no such column. In a table the column names are
  pairwise different and every row has one cell per column (\<open>wf_table\<close>).
\<close>

fun col_pos :: "string \<Rightarrow> string list \<Rightarrow> nat" where
  "col_pos name [] = 0"
| "col_pos name (c # cs) = (if c = name then 0 else Suc (col_pos name cs))"

definition cell :: "string list \<Rightarrow> 'a list \<Rightarrow> string \<Rightarrow> error + 'a" where
  "cell names row name =
     (if name \<in> set names then Inr (row ! col_pos name names) else Inl KeyError)"

definition wf_table :: "'a table \<Rightarrow> bool" where
  "wf_table t \<longleftrightarrow>
     distinct (colnames t) \<and> list_all (\<lambda>r. length r = length (colnames t)) (rows t)"

subsection \<open>The callers\<close>

text \<open>
  Both calls of \<open>join_catalogs\<close> in the notebook have the same shape:
  \<^verbatim>\<open>
  b_pos = coord.SkyCoord(b_catalog['ra'], b_catalog['dec'],
                         unit=('degree', 'degree'))
  y_pos = coord.SkyCoord(y_catalog['ra'], y_catalog['dec'],
                         unit=('degree', 'degree'))

  pos_by = table.Table(b_pos.match_to_catalog_sky(y_pos), masked=True,
                       names=['index', 'distance', '3d'])
  del pos_by['3d']
  ...
  phot_ins = join_catalogs(pos_by, b_catalog, y_catalog)
  \<close>
  \<open>match_to_catalog_sky\<close> is a library function. It raises \<open>ValueError\<close> when the catalog
  to match against is empty, and otherwise answers, for every coordinate on the left, the
  position of the nearest coordinate of the catalog and the separation. The search itself
  is a parameter here (\<open>nearest\<close>), and so are the functions that give the sky position of
  a row of the left and of the right catalog (\<open>left_pos\<close>, \<open>right_pos\<close>).
\<close>

definition match_to_catalog_sky ::
  "('c list \<Rightarrow> 'c \<Rightarrow> index_row) \<Rightarrow> 'c list \<Rightarrow> 'c list \<Rightarrow> error + index_row list" where
  "match_to_catalog_sky nearest coords catalog =
     (if catalog = [] then Inl ValueError else Inr (map (nearest catalog) coords))"

definition match_catalogs ::
  "('c list \<Rightarrow> 'c \<Rightarrow> index_row) \<Rightarrow> ('a list \<Rightarrow> 'c) \<Rightarrow> ('a list \<Rightarrow> 'c) \<Rightarrow>
     'a table \<Rightarrow> 'a table \<Rightarrow> error + 'a table" where
  "match_catalogs nearest left_pos right_pos left_table right_table =
     (case match_to_catalog_sky nearest (map left_pos (rows left_table))
             (map right_pos (rows right_table)) of
        Inl e \<Rightarrow> Inl e
      | Inr pos_by \<Rightarrow> join_catalogs pos_by left_table right_table)"

subsection \<open>Example catalogs\<close>

text \<open>
  Three left records and two right records that both have a column \<open>mag\<close>. The left
  records 0 and 1 have the right record 0 as nearest neighbour, at 2 and at 1 arc seconds;
  the left record 2 has the right record 1, at 1 arc second.
\<close>

definition ex_left :: "int table" where
  "ex_left = \<lparr>colnames = [''id'', ''mag''], rows = [[1, 140], [2, 152], [3, 131]]\<rparr>"

definition ex_right :: "int table" where
  "ex_right = \<lparr>colnames = [''name'', ''mag''], rows = [[7, 150], [8, 130]]\<rparr>"

definition ex_index :: "index_row list" where
  "ex_index = [(0, 2 / 3600), (0, 1 / 3600), (1, 1 / 3600)]"

text \<open>The same left records, with the right record 0 at 5 and at 4 arc seconds.\<close>

definition ex_index_far :: "index_row list" where
  "ex_index_far = [(0, 5 / 3600), (0, 4 / 3600), (1, 1 / 3600)]"

definition ex_merged :: "int table" where
  "ex_merged = \<lparr>colnames = [''id'', ''mag_2'', ''name'', ''mag_3''],
                 rows = [[2, 152, 7, 150], [3, 131, 8, 130]]\<rparr>"



section \<open>Properties of the sort and of the masks\<close>

subsection \<open>Sorting and selecting commute with a change of payload\<close>

lemma insort_key_map:
  "insort_key k (g x) (map g xs) = map g (insort_key (\<lambda>a. k (g a)) x xs)"
  by (induction xs) auto

lemma sort_key_map: "sort_key k (map g xs) = map g (sort_key (\<lambda>a. k (g a)) xs)"
  by (induction xs) (auto simp: insort_key_map)

lemma sort_rows_with_payload:
  "sort_rows (map (with_payload f) m) = map (with_payload f) (sort_rows m)"
proof -
  show ?thesis
    by (simp add: sort_rows_def sort_key_map with_payload_def)
qed

lemma mask_select_map: "mask_select (map g xs) msk = map g (mask_select xs msk)"
  by (induction xs arbitrary: msk) (auto simp: mask_select_def zip_Cons1 split: list.splits)

lemma select_rows_with_payload:
  "select_rows sep (map (with_payload f) m) = map (with_payload f) (select_rows sep m)"
proof -
  have "map index (map (with_payload f) m) = map index m"
    and "map distance (map (with_payload f) m) = map distance m"
    by (simp_all add: with_payload_def)
  then show ?thesis
    by (simp only: select_rows_def mask_select_map)
qed

lemma mask_select_mult:
  "mask_select xs (mask_mult g (map P xs)) = filter P (mask_select xs g)"
  by (induction xs arbitrary: g) (auto simp: mask_select_def mask_mult_def zip_Cons1 split: list.splits)

lemma select_rows_filter:
  "select_rows sep m =
     filter (\<lambda>c. distance c < sep) (mask_select m (good_match (map index m)))"
proof -
  have "nearby sep (map distance m) = map (\<lambda>c. distance c < sep) m"
    by (simp add: nearby_def)
  then show ?thesis
    by (simp add: select_rows_def mask_select_mult)
qed

lemma mask_select_changes:
  "mask_select cs (map (\<lambda>(star, oldstar). star \<noteq> oldstar) (zip (p # map index cs) (map index cs)))
     = firsts p cs"
  by (induction cs arbitrary: p) (auto simp: mask_select_def)

lemma dedup_Nil: "mask_select [] (good_match []) = []"
  by (simp add: mask_select_def)

lemma dedup_Cons:
  "mask_select (c # cs) (good_match (index c # map index cs)) = c # firsts (index c) cs"
proof -
  have "mask_select (c # cs) (good_match (map index (c # cs)))
      = c # mask_select cs (map (\<lambda>(star, oldstar). star \<noteq> oldstar) (zip (index c # map index cs) (map index cs)))"
    by (simp add: good_match_def mask_select_def)
  then show ?thesis by (simp add: mask_select_changes)
qed

subsection \<open>The rows kept by \<open>good_match\<close> in a sorted table\<close>

lemma firsts_index_greater:
  "sorted (map index cs) \<Longrightarrow> \<forall>c \<in> set cs. p \<le> index c \<Longrightarrow> e \<in> set (firsts p cs) \<Longrightarrow> p < index e"
proof (induction cs arbitrary: p)
  case Nil
  then show ?case by simp
next
  case (Cons c cs)
  have le: "p \<le> index c" using Cons.prems(2) by simp
  have srt: "sorted (map index cs)" and all: "\<forall>d \<in> set cs. index c \<le> index d"
    using Cons.prems(1) by auto
  from Cons.prems(3) consider "e = c" "p \<noteq> index c" | "e \<in> set (firsts (index c) cs)"
    by (auto split: if_splits)
  then show ?case
  proof cases
    case 1
    then show ?thesis using le by simp
  next
    case 2
    from Cons.IH [OF srt all 2] le show ?thesis by simp
  qed
qed

lemma firsts_strictly_sorted:
  "sorted (map index cs) \<Longrightarrow> sorted_wrt (<) (map index (firsts p cs))"
proof (induction cs arbitrary: p)
  case Nil
  then show ?case by simp
next
  case (Cons c cs)
  have srt: "sorted (map index cs)" and all: "\<forall>d \<in> set cs. index c \<le> index d"
    using Cons.prems by auto
  have gt: "\<forall>e \<in> set (firsts (index c) cs). index c < index e"
    using firsts_index_greater [OF srt all] by blast
  show ?case using Cons.IH [OF srt] gt by simp
qed

lemma dedup_strictly_sorted:
  fixes m :: "'p matched_row list"
  assumes "sorted (map index m)"
  shows "sorted_wrt (<) (map index (mask_select m (good_match (map index m))))"
proof (cases m)
  case Nil
  then show ?thesis by (simp add: dedup_Nil dedup_Cons)
next
  case (Cons c cs)
  have srt: "sorted (map index cs)" and all: "\<forall>d \<in> set cs. index c \<le> index d"
    using assms Cons by auto
  have "\<forall>e \<in> set (firsts (index c) cs). index c < index e"
    using firsts_index_greater [OF srt all] by blast
  then show ?thesis
    using Cons firsts_strictly_sorted [OF srt] by (simp add: dedup_Nil dedup_Cons)
qed

lemma firsts_subset: "set (firsts p cs) \<subseteq> set cs"
  by (induction cs arbitrary: p) auto

lemma dedup_subset:
  fixes m :: "'p matched_row list"
  shows "set (mask_select m (good_match (map index m))) \<subseteq> set m"
proof (cases m)
  case Nil
  then show ?thesis by (simp add: dedup_Nil)
next
  case (Cons c cs)
  then show ?thesis using firsts_subset [of "index c" cs] by (auto simp: dedup_Cons)
qed

lemma firsts_covers:
  "e' \<in> set cs \<Longrightarrow> index e' = p \<or> (\<exists>e \<in> set (firsts p cs). index e = index e')"
proof (induction cs arbitrary: p)
  case Nil
  then show ?case by simp
next
  case (Cons c cs)
  show ?case
  proof (cases "e' = c")
    case True
    show ?thesis
    proof (cases "p = index c")
      case True
      then show ?thesis using \<open>e' = c\<close> by simp
    next
      case False
      then have "c \<in> set (firsts p (c # cs))" by simp
      then show ?thesis using \<open>e' = c\<close> by blast
    qed
  next
    case False
    then have "e' \<in> set cs" using Cons.prems by simp
    from Cons.IH [OF this, of "index c"]
    consider "index e' = index c" | e where "e \<in> set (firsts (index c) cs)" "index e = index e'"
      by blast
    then show ?thesis
    proof cases
      case 1
      show ?thesis
      proof (cases "p = index c")
        case True
        then show ?thesis using 1 by simp
      next
        case False
        then have "c \<in> set (firsts p (c # cs))" by simp
        then show ?thesis using 1 by metis
      qed
    next
      case 2
      then have "e \<in> set (firsts p (c # cs))" by simp
      then show ?thesis using 2(2) by blast
    qed
  qed
qed

lemma dedup_covers:
  fixes m :: "'p matched_row list"
  assumes "e' \<in> set m"
  shows "\<exists>e \<in> set (mask_select m (good_match (map index m))). index e = index e'"
proof (cases m)
  case Nil
  then show ?thesis using assms by simp
next
  case (Cons c cs)
  show ?thesis
  proof (cases "e' = c")
    case True
    then show ?thesis using Cons by (simp add: dedup_Nil dedup_Cons)
  next
    case False
    then have "e' \<in> set cs" using assms Cons by simp
    from firsts_covers [OF this, of "index c"] show ?thesis
      using Cons by (auto simp: dedup_Nil dedup_Cons)
  qed
qed

lemma key_sorted_index_sorted:
  fixes m :: "'p matched_row list"
  shows "sorted (map (\<lambda>c. (index c, distance c)) m) \<Longrightarrow> sorted (map index m)"
  by (induction m) (auto simp: less_eq_prod_def)

lemma firsts_closest:
  "sorted (map (\<lambda>c. (index c, distance c)) cs) \<Longrightarrow> \<forall>c \<in> set cs. p \<le> index c
     \<Longrightarrow> e \<in> set (firsts p cs) \<Longrightarrow> e' \<in> set cs \<Longrightarrow> index e' = index e
     \<Longrightarrow> distance e \<le> distance e'"
proof (induction cs arbitrary: p)
  case Nil
  then show ?case by simp
next
  case (Cons c cs)
  have srt: "sorted (map (\<lambda>c. (index c, distance c)) cs)"
    and all': "\<forall>d \<in> set cs. (index c, distance c) \<le> (index d, distance d)"
    using Cons.prems(1) by auto
  have all: "\<forall>d \<in> set cs. index c \<le> index d"
    using all' by (auto simp: less_eq_prod_def)
  from Cons.prems(3) consider "e = c" | "e \<in> set (firsts (index c) cs)"
    by (auto split: if_splits)
  then show ?case
  proof cases
    case 1
    show ?thesis
    proof (cases "e' = c")
      case True
      then show ?thesis using 1 by simp
    next
      case False
      then have "e' \<in> set cs" using Cons.prems(4) by simp
      then have "(index c, distance c) \<le> (index e', distance e')" using all' by blast
      then show ?thesis using 1 Cons.prems(5) by (simp add: less_eq_prod_def)
    qed
  next
    case 2
    have gt: "index c < index e"
      using firsts_index_greater [OF key_sorted_index_sorted [OF srt] all 2] .
    then have "e' \<noteq> c" using Cons.prems(5) by auto
    then have "e' \<in> set cs" using Cons.prems(4) by simp
    from Cons.IH [OF srt all 2 this Cons.prems(5)] show ?thesis .
  qed
qed

lemma dedup_closest:
  fixes m :: "'p matched_row list"
  assumes "sorted (map (\<lambda>c. (index c, distance c)) m)"
    and "e \<in> set (mask_select m (good_match (map index m)))"
    and "e' \<in> set m" and "index e' = index e"
  shows "distance e \<le> distance e'"
proof (cases m)
  case Nil
  then show ?thesis using assms by simp
next
  case (Cons c cs)
  have srt: "sorted (map (\<lambda>c. (index c, distance c)) cs)"
    and all': "\<forall>d \<in> set cs. (index c, distance c) \<le> (index d, distance d)"
    using assms(1) Cons by auto
  have all: "\<forall>d \<in> set cs. index c \<le> index d"
    using all' by (auto simp: less_eq_prod_def)
  from assms(2) Cons consider "e = c" | "e \<in> set (firsts (index c) cs)"
    by (auto simp: dedup_Nil dedup_Cons)
  then show ?thesis
  proof cases
    case 1
    show ?thesis
    proof (cases "e' = c")
      case True
      then show ?thesis using 1 by simp
    next
      case False
      then have "e' \<in> set cs" using assms(3) Cons by simp
      then have "(index c, distance c) \<le> (index e', distance e')" using all' by blast
      then show ?thesis using 1 assms(4) by (simp add: less_eq_prod_def)
    qed
  next
    case 2
    have "index c < index e"
      using firsts_index_greater [OF key_sorted_index_sorted [OF srt] all 2] .
    then have "e' \<noteq> c" using assms(4) by auto
    then have "e' \<in> set cs" using assms(3) Cons by simp
    from firsts_closest [OF srt all 2 this assms(4)] show ?thesis .
  qed
qed

subsection \<open>The result in terms of left positions\<close>

lemma set_sort_rows: "set (sort_rows m) = set m"
  by (simp add: sort_rows_def)

lemma sorted_sort_rows: "sorted (map (\<lambda>c. (index c, distance c)) (sort_rows m))"
  by (simp add: sort_rows_def sorted_sort_key)

lemma position_rows_conv:
  "position_rows it = map (\<lambda>p. \<lparr>index = fst (it ! p), distance = snd (it ! p), payload = p\<rparr>) [0..<length it]"
  by (rule nth_equalityI) (simp_all add: position_rows_def split_beta)

lemma in_position_rows:
  "c \<in> set (position_rows it) \<Longrightarrow>
     payload c < length it \<and> index c = fst (it ! payload c) \<and> distance c = snd (it ! payload c)"
  by (auto simp: position_rows_conv)

lemma position_row_mem:
  "p < length it \<Longrightarrow> \<lparr>index = fst (it ! p), distance = snd (it ! p), payload = p\<rparr> \<in> set (position_rows it)"
  by (simp add: position_rows_conv)

lemma stacked_rows_conv:
  assumes "length ls = length it" and "length rs = length it"
  shows "map (\<lambda>((i, d), l, r). \<lparr>index = i, distance = d, payload = (l, r)\<rparr>) (zip it (zip ls rs))
       = map (with_payload (\<lambda>p. (ls ! p, rs ! p))) (position_rows it)"
  using assms
  by (intro nth_equalityI) (simp_all add: position_rows_conv with_payload_def split_beta)

lemma select_rows_subset: "set (select_rows sep m) \<subseteq> set m"
  for m :: "'p matched_row list"
  using dedup_subset [of m] by (auto simp: select_rows_filter)

lemma winners_bound: "p \<in> set (winners sep it) \<Longrightarrow> p < length it"
proof -
  assume "p \<in> set (winners sep it)"
  then obtain c where c: "c \<in> set (select_rows sep (sort_rows (position_rows it)))" and p: "p = payload c"
    by (auto simp: winners_def)
  from c have "c \<in> set (position_rows it)"
    using select_rows_subset [of sep "sort_rows (position_rows it)"] by (auto simp: set_sort_rows)
  then show ?thesis using p in_position_rows by blast
qed

lemma join_catalogs_with_Inr:
  "join_catalogs_with sep it L R = Inr T \<longleftrightarrow>
     list_all (\<lambda>i. i < length (rows R)) (map fst it) \<and>
     (\<exists>names. hstack_colnames [''index'', ''distance''] (colnames L) (colnames R) = Inr names \<and>
        length (rows L) = length it \<and> ''index'' \<in> set names \<and> ''distance'' \<in> set names \<and>
        T = \<lparr>colnames = del_index_distance names,
             rows = map (\<lambda>p. rows L ! p @ rows R ! fst (it ! p)) (winners sep it)\<rparr>)"
proof (cases "list_all (\<lambda>i. i < length (rows R)) (map fst it)")
  case False
  then show ?thesis by (simp add: join_catalogs_with_def take_rows_def)
next
  case inb: True
  define R' where "R' = R\<lparr>rows := map (\<lambda>i. rows R ! i) (map fst it)\<rparr>"
  have tr: "take_rows R (map fst it) = Inr R'"
    using inb by (simp add: take_rows_def R'_def)
  have cn: "colnames R' = colnames R" and rr: "rows R' = map (\<lambda>i. rows R ! i) (map fst it)"
    by (simp_all add: R'_def)
  show ?thesis
  proof (cases "hstack_colnames [''index'', ''distance''] (colnames L) (colnames R)")
    case (Inl e)
    then show ?thesis by (simp add: join_catalogs_with_def tr hstack_def cn)
  next
    case (Inr names)
    show ?thesis
    proof (cases "length (rows L) = length it")
      case False
      then show ?thesis by (simp add: join_catalogs_with_def tr hstack_def cn Inr)
    next
      case len: True
      define f where "f = (\<lambda>p. (rows L ! p, rows R' ! p))"
      have st: "hstack it L R' = Inr \<lparr>mcolnames = names, mrows = map (with_payload f) (position_rows it)\<rparr>"
        using len stacked_rows_conv [of "rows L" it "rows R'"]
        by (simp add: hstack_def cn Inr rr f_def)
      show ?thesis
      proof (cases "''index'' \<in> set names \<and> ''distance'' \<in> set names")
        case False
        then show ?thesis by (auto simp: join_catalogs_with_def tr st sort_table_def Inr len)
      next
        case True
        have "map merged_row (select_rows sep (sort_rows (map (with_payload f) (position_rows it))))
            = map (\<lambda>p. fst (f p) @ snd (f p)) (winners sep it)"
          by (simp add: sort_rows_with_payload select_rows_with_payload winners_def
              merged_row_def with_payload_def comp_def)
        also have "\<dots> = map (\<lambda>p. rows L ! p @ rows R ! fst (it ! p)) (winners sep it)"
          using winners_bound [of _ sep it] by (auto simp: f_def rr)
        finally have rows_eq: "map merged_row (select_rows sep (sort_rows (map (with_payload f) (position_rows it))))
            = map (\<lambda>p. rows L ! p @ rows R ! fst (it ! p)) (winners sep it)" .
        show ?thesis
          using True rows_eq
          by (auto simp: join_catalogs_with_def tr st sort_table_def Inr len inb)
      qed
    qed
  qed
qed

lemma dedup_rows_in_position_rows:
  "c \<in> set (mask_select (sort_rows (position_rows it)) (good_match (map index (sort_rows (position_rows it)))))
     \<Longrightarrow> c \<in> set (position_rows it)"
  using dedup_subset [of "sort_rows (position_rows it)"] by (auto simp: set_sort_rows)

lemma dedup_row_fields:
  assumes "c \<in> set (mask_select (sort_rows (position_rows it)) (good_match (map index (sort_rows (position_rows it)))))"
  shows "payload c < length it" and "index c = fst (it ! payload c)"
    and "distance c = snd (it ! payload c)"
  using in_position_rows [OF dedup_rows_in_position_rows [OF assms]] by simp_all

lemma dedup_positions_conv:
  "dedup_positions it
     = map payload (mask_select (sort_rows (position_rows it)) (good_match (map index (sort_rows (position_rows it)))))"
  by (simp add: dedup_positions_def Let_def)

lemma winners_filter:
  "winners sep it = filter (\<lambda>p. snd (it ! p) < sep) (dedup_positions it)"
proof -
  let ?D = "mask_select (sort_rows (position_rows it)) (good_match (map index (sort_rows (position_rows it))))"
  have "filter (\<lambda>c. distance c < sep) ?D = filter (\<lambda>c. snd (it ! payload c) < sep) ?D"
    by (rule filter_cong) (simp_all add: dedup_row_fields(3))
  then show ?thesis
    by (simp add: winners_def dedup_positions_conv select_rows_filter filter_map comp_def)
qed

lemma right_index_dedup:
  "map (\<lambda>p. fst (it ! p)) (dedup_positions it)
     = map index (mask_select (sort_rows (position_rows it)) (good_match (map index (sort_rows (position_rows it)))))"
  by (simp add: dedup_positions_conv dedup_row_fields(2))

lemma dedup_positions_strictly_sorted:
  "sorted_wrt (<) (map (\<lambda>p. fst (it ! p)) (dedup_positions it))"
  unfolding right_index_dedup
  by (rule dedup_strictly_sorted) (rule key_sorted_index_sorted [OF sorted_sort_rows])

lemma winners_strictly_sorted:
  "sorted_wrt (<) (map (\<lambda>p. fst (it ! p)) (winners sep it))"
  using dedup_positions_strictly_sorted [of it]
  by (simp add: winners_filter sorted_wrt_map sorted_wrt_filter)

lemma dedup_positions_closest:
  assumes "p \<in> set (dedup_positions it)" and "q < length it" and "fst (it ! q) = fst (it ! p)"
  shows "snd (it ! p) \<le> snd (it ! q)"
proof -
  let ?m = "sort_rows (position_rows it)"
  from assms(1) obtain c where c: "c \<in> set (mask_select ?m (good_match (map index ?m)))" and p: "p = payload c"
    by (auto simp: dedup_positions_conv)
  have cin: "index c = fst (it ! p) \<and> distance c = snd (it ! p)"
    using dedup_row_fields [OF c] p by simp
  let ?d = "\<lparr>index = fst (it ! q), distance = snd (it ! q), payload = q\<rparr>"
  have d: "?d \<in> set ?m" using position_row_mem [OF assms(2)] by (simp add: set_sort_rows)
  have "index ?d = index c" using assms(3) cin by simp
  from dedup_closest [OF sorted_sort_rows c d this] show ?thesis using cin by simp
qed

lemma dedup_positions_covers:
  assumes "q < length it"
  shows "\<exists>p \<in> set (dedup_positions it). fst (it ! p) = fst (it ! q)"
proof -
  let ?m = "sort_rows (position_rows it)"
  let ?d = "\<lparr>index = fst (it ! q), distance = snd (it ! q), payload = q\<rparr>"
  have d: "?d \<in> set ?m" using position_row_mem [OF assms] by (simp add: set_sort_rows)
  from dedup_covers [OF d] obtain e where e: "e \<in> set (mask_select ?m (good_match (map index ?m)))"
    and ie: "index e = fst (it ! q)" by auto
  have "payload e \<in> set (dedup_positions it)" using e by (simp add: dedup_positions_conv)
  moreover have "fst (it ! payload e) = fst (it ! q)"
    using dedup_row_fields(2) [OF e] ie by simp
  ultimately show ?thesis by blast
qed

lemma dedup_positions_unique:
  assumes "p \<in> set (dedup_positions it)" and "q \<in> set (dedup_positions it)"
    and "fst (it ! p) = fst (it ! q)"
  shows "p = q"
proof -
  have "distinct (map (\<lambda>p. fst (it ! p)) (dedup_positions it))"
    using dedup_positions_strictly_sorted [of it] strict_sorted_iff by blast
  then have "inj_on (\<lambda>p. fst (it ! p)) (set (dedup_positions it))"
    by (simp add: distinct_map)
  then show ?thesis using assms by (auto dest: inj_onD)
qed

lemma join_rows:
  "join_catalogs_with sep it L R = Inr T \<Longrightarrow>
     rows T = map (\<lambda>w. rows L ! w @ rows R ! fst (it ! w)) (winners sep it)"
  by (auto simp: join_catalogs_with_Inr)

lemma join_cutoff_independent:
  "join_catalogs_with sep it L R = Inr T \<Longrightarrow>
     join_catalogs_with sep' it L R
       = Inr (T\<lparr>rows := map (\<lambda>w. rows L ! w @ rows R ! fst (it ! w)) (winners sep' it)\<rparr>)"
  by (auto simp: join_catalogs_with_Inr)

lemmas join_defs = join_catalogs_def join_catalogs_with_def take_rows_def hstack_def
  hstack_colnames_def uniq_col_name_def sort_table_def sort_rows_def select_rows_def
  mask_select_def mask_mult_def good_match_def nearby_def arcsec3_def del_index_distance_def
  merged_row_def

lemmas ex_defs = ex_left_def ex_right_def ex_index_def ex_index_far_def ex_merged_def

lemma ex_join: "join_catalogs_with arcsec3 ex_index ex_left ex_right = Inr ex_merged"
  by (simp add: join_defs ex_defs)

subsection \<open>Column names of the result\<close>

lemma col_pos_less: "x \<in> set xs \<Longrightarrow> col_pos x xs < length xs"
  by (induction xs) auto

lemma col_pos_append:
  "col_pos y (as @ bs) = (if y \<in> set as then col_pos y as else length as + col_pos y bs)"
  by (induction as) auto

lemma col_pos_map:
  "distinct (map f xs) \<Longrightarrow> x \<in> set xs \<Longrightarrow> col_pos (f x) (map f xs) = col_pos x xs"
  by (induction xs) auto

lemma suffixed_neq_index: "m @ ''_'' @ t \<noteq> ''index''" if "t = ''1'' \<or> t = ''2'' \<or> t = ''3''"
  using that by (auto dest!: arg_cong [where f = last])

lemma suffixed_neq_distance: "m @ ''_'' @ t \<noteq> ''distance''" if "t = ''1'' \<or> t = ''2'' \<or> t = ''3''"
  using that by (auto dest!: arg_cong [where f = last])

lemma uniq_neq_index:
  assumes "t = ''1'' \<or> t = ''2'' \<or> t = ''3''" and "m \<noteq> ''index'' \<or> ''index'' \<in> set others"
  shows "uniq_col_name t others m \<noteq> ''index''"
  using assms suffixed_neq_index [of t m] by (auto simp: uniq_col_name_def)

lemma uniq_neq_distance:
  assumes "t = ''1'' \<or> t = ''2'' \<or> t = ''3''" and "m \<noteq> ''distance'' \<or> ''distance'' \<in> set others"
  shows "uniq_col_name t others m \<noteq> ''distance''"
  using assms suffixed_neq_distance [of t m] by (auto simp: uniq_col_name_def)

lemma hstack_colnames_sorted_ok:
  assumes h: "hstack_colnames [''index'', ''distance''] cl cr = Inr names"
    and i: "''index'' \<in> set names" and d: "''distance'' \<in> set names"
  shows "''index'' \<notin> set (cl @ cr)" and "''distance'' \<notin> set (cl @ cr)"
    and "names = [''index'', ''distance''] @ map (uniq_col_name ''2'' cr) cl @ map (uniq_col_name ''3'' cl) cr"
    and "distinct names"
proof -
  let ?A = "map (uniq_col_name ''2'' ([''index'', ''distance''] @ cr)) cl"
  let ?B = "map (uniq_col_name ''3'' ([''index'', ''distance''] @ cl)) cr"
  have names: "names = map (uniq_col_name ''1'' (cl @ cr)) [''index'', ''distance''] @ ?A @ ?B"
    and dist: "distinct names"
    using h by (auto simp: hstack_colnames_def Let_def split: if_splits)
  have nA: "''index'' \<notin> set ?A" "''distance'' \<notin> set ?A"
    using uniq_neq_index [of "''2''" _ "[''index'', ''distance''] @ cr", THEN not_sym]
      uniq_neq_distance [of "''2''" _ "[''index'', ''distance''] @ cr", THEN not_sym] by auto
  have nB: "''index'' \<notin> set ?B" "''distance'' \<notin> set ?B"
    using uniq_neq_index [of "''3''" _ "[''index'', ''distance''] @ cl", THEN not_sym]
      uniq_neq_distance [of "''3''" _ "[''index'', ''distance''] @ cl", THEN not_sym] by auto
  show ni: "''index'' \<notin> set (cl @ cr)"
  proof
    assume a: "''index'' \<in> set (cl @ cr)"
    then have "uniq_col_name ''1'' (cl @ cr) ''index'' \<noteq> ''index''"
      by (intro uniq_neq_index) simp_all
    moreover have "uniq_col_name ''1'' (cl @ cr) ''distance'' \<noteq> ''index''"
      by (intro uniq_neq_index) simp_all
    ultimately show False using i nA nB unfolding names by simp
  qed
  show nd: "''distance'' \<notin> set (cl @ cr)"
  proof
    assume a: "''distance'' \<in> set (cl @ cr)"
    then have "uniq_col_name ''1'' (cl @ cr) ''distance'' \<noteq> ''distance''"
      by (intro uniq_neq_distance) simp_all
    moreover have "uniq_col_name ''1'' (cl @ cr) ''index'' \<noteq> ''distance''"
      by (intro uniq_neq_distance) simp_all
    ultimately show False using d nA nB unfolding names by simp
  qed
  have A: "?A = map (uniq_col_name ''2'' cr) cl"
    using ni nd by (intro map_cong) (auto simp: uniq_col_name_def)
  have B: "?B = map (uniq_col_name ''3'' cl) cr"
    using ni nd by (intro map_cong) (auto simp: uniq_col_name_def)
  show "names = [''index'', ''distance''] @ map (uniq_col_name ''2'' cr) cl @ map (uniq_col_name ''3'' cl) cr"
    using ni nd unfolding names A B by (simp add: uniq_col_name_def)
  show "distinct names" by (rule dist)
qed

lemma join_colnames:
  assumes "join_catalogs_with sep it L R = Inr T"
  shows "colnames T = map (uniq_col_name ''2'' (colnames R)) (colnames L)
                    @ map (uniq_col_name ''3'' (colnames L)) (colnames R)"
    and "distinct (colnames T)"
    and "''index'' \<notin> set (colnames L @ colnames R)"
    and "''distance'' \<notin> set (colnames L @ colnames R)"
proof -
  from assms obtain names where
    h: "hstack_colnames [''index'', ''distance''] (colnames L) (colnames R) = Inr names"
    and i: "''index'' \<in> set names" and d: "''distance'' \<in> set names"
    and T: "colnames T = del_index_distance names"
    by (auto simp: join_catalogs_with_Inr)
  note ok = hstack_colnames_sorted_ok [OF h i d]
  let ?AB = "map (uniq_col_name ''2'' (colnames R)) (colnames L)
           @ map (uniq_col_name ''3'' (colnames L)) (colnames R)"
  have n: "names = ''index'' # ''distance'' # ?AB" using ok(3) by simp
  have "''index'' \<notin> set ?AB" "''distance'' \<notin> set ?AB"
    using ok(4) unfolding n by auto
  then have "filter (\<lambda>n. n \<noteq> ''index'' \<and> n \<noteq> ''distance'') ?AB = ?AB"
    by (intro filter_True) metis
  then show "colnames T = ?AB" unfolding T n del_index_distance_def by simp
  then show "distinct (colnames T)" using ok(4) unfolding n by simp
  show "''index'' \<notin> set (colnames L @ colnames R)" by (rule ok(1))
  show "''distance'' \<notin> set (colnames L @ colnames R)" by (rule ok(2))
qed


lemma left_cell:
  assumes "distinct (map f cl @ bs)" and "m \<in> set cl" and "length l = length cl"
  shows "cell (map f cl @ bs) (l @ r) (f m) = Inr (l ! col_pos m cl)"
proof -
  have d: "distinct (map f cl)" using assms(1) by simp
  have "col_pos (f m) (map f cl @ bs) = col_pos m cl"
    using assms(2) col_pos_map [OF d assms(2)] by (simp add: col_pos_append)
  moreover have "col_pos m cl < length l"
    using col_pos_less [OF assms(2)] assms(3) by simp
  ultimately show ?thesis using assms(2) by (simp add: cell_def nth_append)
qed

lemma right_cell:
  assumes "distinct (as @ map g cr)" and "m \<in> set cr" and "length l = length as"
  shows "cell (as @ map g cr) (l @ r) (g m) = Inr (r ! col_pos m cr)"
proof -
  have d: "distinct (map g cr)" using assms(1) by simp
  have "g m \<notin> set as" using assms(1,2) by auto
  then have "col_pos (g m) (as @ map g cr) = length l + col_pos m cr"
    using col_pos_map [OF d assms(2)] assms(3) by (simp add: col_pos_append)
  then show ?thesis using assms(2) by (simp add: cell_def nth_append)
qed

lemma wf_table_row: "wf_table t \<Longrightarrow> i < length (rows t) \<Longrightarrow> length (rows t ! i) = length (colnames t)"
  by (simp add: wf_table_def list_all_length)

section \<open>The claims\<close>

text \<open>
  In every statement \<open>it\<close> is the index table, \<open>L\<close> and \<open>R\<close> are the left and the right
  catalog, \<open>sep\<close> is the cutoff in degrees, and \<open>fst (it ! p)\<close> and \<open>snd (it ! p)\<close> are the
  nearest right record of the left record \<open>p\<close> and its angular distance.
  \<open>join_catalogs\<close> is \<open>join_catalogs_with arcsec3\<close>, so every statement about
  \<open>join_catalogs_with sep\<close> is one about \<open>join_catalogs\<close> at \<open>sep = arcsec3\<close>.
\<close>

text \<open>
  Claim C1. When two left records \<open>p\<close> and \<open>q\<close> have the same nearest right record, the
  deduplication keeps exactly one left record for that right record, one at the smallest
  distance of all its candidates, so \<open>p\<close> and \<open>q\<close> are not both kept; when \<open>p\<close> is strictly
  closer, \<open>q\<close> is not kept. A record that is not kept is in no row of the result: the rows
  of the result are kept left records within the cutoff, each next to its own nearest
  right record.
\<close>

theorem closer_left_record_wins:
  assumes ok: "join_catalogs_with sep it L R = Inr T"
    and p: "p < length it" and q: "q < length it" and pq: "p \<noteq> q"
    and same: "fst (it ! p) = fst (it ! q)"
  shows "(\<exists>!w. w \<in> set (dedup_positions it) \<and> fst (it ! w) = fst (it ! q))
       \<and> (\<forall>w \<in> set (dedup_positions it). fst (it ! w) = fst (it ! q) \<longrightarrow>
             (\<forall>k < length it. fst (it ! k) = fst (it ! q) \<longrightarrow> snd (it ! w) \<le> snd (it ! k)))
       \<and> \<not> (p \<in> set (dedup_positions it) \<and> q \<in> set (dedup_positions it))
       \<and> (snd (it ! p) < snd (it ! q) \<longrightarrow> q \<notin> set (dedup_positions it))
       \<and> winners sep it = filter (\<lambda>w. snd (it ! w) < sep) (dedup_positions it)
       \<and> \<not> (p \<in> set (winners sep it) \<and> q \<in> set (winners sep it))
       \<and> (snd (it ! p) < snd (it ! q) \<longrightarrow> q \<notin> set (winners sep it))
       \<and> rows T = map (\<lambda>w. rows L ! w @ rows R ! fst (it ! w)) (winners sep it)"
proof -
  have one: "\<exists>!w. w \<in> set (dedup_positions it) \<and> fst (it ! w) = fst (it ! q)"
    using dedup_positions_covers [OF q] dedup_positions_unique [of _ it] by metis
  have closest: "\<forall>w \<in> set (dedup_positions it). fst (it ! w) = fst (it ! q) \<longrightarrow>
             (\<forall>k < length it. fst (it ! k) = fst (it ! q) \<longrightarrow> snd (it ! w) \<le> snd (it ! k))"
    using dedup_positions_closest [of _ it] by simp
  have both: "\<not> (p \<in> set (dedup_positions it) \<and> q \<in> set (dedup_positions it))"
    using dedup_positions_unique [of p it q] same pq by blast
  have loser: "q \<notin> set (dedup_positions it)" if closer: "snd (it ! p) < snd (it ! q)"
  proof
    assume "q \<in> set (dedup_positions it)"
    from dedup_positions_closest [OF this p same] show False using closer by simp
  qed
  have sub: "set (winners sep it) \<subseteq> set (dedup_positions it)"
    by (auto simp: winners_filter)
  have both': "\<not> (p \<in> set (winners sep it) \<and> q \<in> set (winners sep it))"
    using both sub by blast
  have loser': "q \<notin> set (winners sep it)" if "snd (it ! p) < snd (it ! q)"
    using loser [OF that] sub by blast
  have l1: "snd (it ! p) < snd (it ! q) \<longrightarrow> q \<notin> set (dedup_positions it)"
    using loser by simp
  have l2: "snd (it ! p) < snd (it ! q) \<longrightarrow> q \<notin> set (winners sep it)"
    using loser' by simp
  show ?thesis
    by (intro conjI one closest both l1 winners_filter both' l2 join_rows [OF ok])
qed

theorem closer_left_record_wins_witness:
  "join_catalogs_with arcsec3 ex_index ex_left ex_right = Inr ex_merged
   \<and> fst (ex_index ! 1) = fst (ex_index ! 0) \<and> snd (ex_index ! 1) < snd (ex_index ! 0)
   \<and> 0 \<notin> set (dedup_positions ex_index) \<and> 0 \<notin> set (winners arcsec3 ex_index)
   \<and> rows ex_merged
       = map (\<lambda>w. rows ex_left ! w @ rows ex_right ! fst (ex_index ! w)) (winners arcsec3 ex_index)"
proof -
  have h: "(1::nat) < length ex_index" "(0::nat) < length ex_index" "(1::nat) \<noteq> 0"
    "fst (ex_index ! 1) = fst (ex_index ! 0)"
    by (simp_all add: ex_index_def)
  have c: "snd (ex_index ! 1) < snd (ex_index ! 0)"
    by (simp add: ex_index_def)
  from closer_left_record_wins [OF ex_join h] ex_join h c show ?thesis
    by simp
qed

text \<open>
  Claim C2. No right record is used in two rows of the result: the right indices of the
  rows of the result are pairwise different.
\<close>

theorem right_record_used_once:
  assumes "join_catalogs_with sep it L R = Inr T"
  shows "rows T = map (\<lambda>w. rows L ! w @ rows R ! fst (it ! w)) (winners sep it)
       \<and> distinct (map (\<lambda>w. fst (it ! w)) (winners sep it))"
proof -
  have "distinct (map (\<lambda>w. fst (it ! w)) (winners sep it))"
    using winners_strictly_sorted [of it sep] strict_sorted_iff by blast
  then show ?thesis using join_rows [OF assms] by simp
qed

theorem right_record_used_once_witness:
  "join_catalogs_with arcsec3 ex_index ex_left ex_right = Inr ex_merged
   \<and> distinct (map (\<lambda>w. fst (ex_index ! w)) (winners arcsec3 ex_index))"
  using right_record_used_once [OF ex_join] ex_join by simp

text \<open>
  Claim C3, as stated: a candidate that survives the deduplication is dropped exactly
  when its distance is strictly greater than the cutoff, so that a distance equal to the
  cutoff is kept. The source compares with \<open><\<close>: a single left record whose distance to
  its nearest right record is exactly the cutoff survives the deduplication, its distance
  is not greater than the cutoff, and the result has no row.
\<close>

theorem distance_equal_to_cutoff_counterexample:
  "dedup_positions [(0, arcsec3)] = [0]
   \<and> \<not> arcsec3 < snd ([(0, arcsec3)] ! 0)
   \<and> join_catalogs [(0, arcsec3)] \<lparr>colnames = [''id''], rows = [[1::int]]\<rparr>
         \<lparr>colnames = [''name''], rows = [[7]]\<rparr>
       = Inr \<lparr>colnames = [''id'', ''name''], rows = []\<rparr>"
  by (simp add: join_defs dedup_positions_def position_rows_def)

text \<open>
  Claim C3, amended. A candidate that survives the deduplication is dropped exactly when
  its distance is greater than or equal to the cutoff.
\<close>

theorem cutoff_is_strict:
  assumes "join_catalogs_with sep it L R = Inr T" and "w \<in> set (dedup_positions it)"
  shows "rows T = map (\<lambda>w. rows L ! w @ rows R ! fst (it ! w)) (winners sep it)
       \<and> (w \<notin> set (winners sep it) \<longleftrightarrow> sep \<le> snd (it ! w))"
  using join_rows [OF assms(1)] assms(2) by (auto simp: winners_filter)

theorem cutoff_is_strict_witness:
  "join_catalogs_with arcsec3 ex_index_far ex_left ex_right
     = Inr \<lparr>colnames = [''id'', ''mag_2'', ''name'', ''mag_3''], rows = [[3, 131, 8, 130]]\<rparr>
   \<and> dedup_positions ex_index_far = [1, 2]
   \<and> 1 \<notin> set (winners arcsec3 ex_index_far) \<and> arcsec3 \<le> snd (ex_index_far ! 1)
   \<and> 2 \<in> set (winners arcsec3 ex_index_far) \<and> snd (ex_index_far ! 2) < arcsec3"
proof -
  have ok: "join_catalogs_with arcsec3 ex_index_far ex_left ex_right
     = Inr \<lparr>colnames = [''id'', ''mag_2'', ''name'', ''mag_3''], rows = [[3, 131, 8, 130]]\<rparr>"
    by (simp add: join_defs ex_defs)
  have d: "dedup_positions ex_index_far = [1, 2]"
    by (simp add: dedup_positions_def position_rows_def ex_defs sort_rows_def mask_select_def
        good_match_def upt_rec)
  have m: "(1::nat) \<in> set (dedup_positions ex_index_far)" "(2::nat) \<in> set (dedup_positions ex_index_far)"
    by (simp_all add: d)
  have v: "arcsec3 \<le> snd (ex_index_far ! 1)" "snd (ex_index_far ! 2) < arcsec3"
    by (simp_all add: ex_defs arcsec3_def)
  from cutoff_is_strict [OF ok m(1)] cutoff_is_strict [OF ok m(2)] ok d v show ?thesis
    by simp
qed

text \<open>
  Claim C5, as stated: an empty left catalog against any right catalog, and any left
  catalog against an empty right catalog, give an empty result and no error. With an
  empty right catalog the nearest-neighbour query of the caller raises \<open>ValueError\<close>, for
  the three left records of the example and for an empty left catalog alike, whatever the
  search would answer, and \<open>join_catalogs\<close> is not reached.
\<close>

theorem empty_right_catalog_counterexample:
  "rows ex_left \<noteq> [] \<and> rows (ex_right\<lparr>rows := []\<rparr>) = []
   \<and> match_catalogs (\<lambda>catalog c. (0, 0)) (\<lambda>row. row ! 0) (\<lambda>row. row ! 0)
         ex_left (ex_right\<lparr>rows := []\<rparr>) = Inl ValueError
   \<and> match_catalogs (\<lambda>catalog c. (0, 0)) (\<lambda>row. row ! 0) (\<lambda>row. row ! 0)
         (ex_left\<lparr>rows := []\<rparr>) (ex_right\<lparr>rows := []\<rparr>) = Inl ValueError"
  by (simp add: match_catalogs_def match_to_catalog_sky_def ex_defs)

text \<open>
  Claim C5, amended. Any left catalog against an empty right catalog raises \<open>ValueError\<close>
  in the nearest-neighbour query. An empty left catalog against a right catalog that is
  not empty gives a result without rows and no error, provided the column names merge as
  they must in every call: \<open>hstack\<close> accepts them, and \<open>index\<close> and \<open>distance\<close> are still
  columns of the stacked table. \<open>join_catalogs\<close> itself, on an empty index table and an
  empty left catalog, gives that result whatever the right catalog.
\<close>

theorem empty_catalogs:
  "(rows R = [] \<longrightarrow> match_catalogs nearest left_pos right_pos L R = Inl ValueError)
   \<and> (hstack_colnames [''index'', ''distance''] (colnames L) (colnames R) = Inr names
        \<and> ''index'' \<in> set names \<and> ''distance'' \<in> set names \<and> rows L = []
      \<longrightarrow> join_catalogs [] L R = Inr \<lparr>colnames = del_index_distance names, rows = []\<rparr>
        \<and> (rows R \<noteq> [] \<longrightarrow>
             match_catalogs nearest left_pos right_pos L R
               = Inr \<lparr>colnames = del_index_distance names, rows = []\<rparr>))"
proof -
  have a: "rows R = [] \<longrightarrow> match_catalogs nearest left_pos right_pos L R = Inl ValueError"
    by (simp add: match_catalogs_def match_to_catalog_sky_def)
  have w: "winners arcsec3 [] = []"
    using winners_bound [of _ arcsec3 "[]"] by (cases "winners arcsec3 []") auto
  have b: "join_catalogs [] L R = Inr \<lparr>colnames = del_index_distance names, rows = []\<rparr>"
    if "hstack_colnames [''index'', ''distance''] (colnames L) (colnames R) = Inr names"
      and "''index'' \<in> set names" and "''distance'' \<in> set names" and "rows L = []"
    using that w by (simp add: join_catalogs_def join_catalogs_with_Inr)
  have c: "match_catalogs nearest left_pos right_pos L R = join_catalogs [] L R"
    if "rows L = []" and "rows R \<noteq> []"
    using that by (simp add: match_catalogs_def match_to_catalog_sky_def)
  show ?thesis using a b c by simp
qed

theorem empty_catalogs_witness:
  "hstack_colnames [''index'', ''distance''] (colnames (ex_left\<lparr>rows := []\<rparr>)) (colnames ex_right)
     = Inr [''index'', ''distance'', ''id'', ''mag_2'', ''name'', ''mag_3'']
   \<and> rows ex_right \<noteq> []
   \<and> match_catalogs (\<lambda>catalog c. (0, 0)) (\<lambda>row. row ! 0) (\<lambda>row. row ! 0)
         (ex_left\<lparr>rows := []\<rparr>) ex_right
     = Inr \<lparr>colnames = [''id'', ''mag_2'', ''name'', ''mag_3''], rows = []\<rparr>
   \<and> join_catalogs [] (ex_left\<lparr>rows := []\<rparr>) ex_right
     = Inr \<lparr>colnames = [''id'', ''mag_2'', ''name'', ''mag_3''], rows = []\<rparr>
   \<and> match_catalogs (\<lambda>catalog c. (0, 0)) (\<lambda>row. row ! 0) (\<lambda>row. row ! 0)
         ex_left (ex_right\<lparr>rows := []\<rparr>) = Inl ValueError"
proof -
  have n: "hstack_colnames [''index'', ''distance''] (colnames (ex_left\<lparr>rows := []\<rparr>)) (colnames ex_right)
     = Inr [''index'', ''distance'', ''id'', ''mag_2'', ''name'', ''mag_3'']"
    by (simp add: hstack_colnames_def uniq_col_name_def ex_defs)
  have r: "rows ex_right \<noteq> []" by (simp add: ex_defs)
  from empty_catalogs [of ex_right "\<lambda>catalog c. (0, 0)" "\<lambda>row. row ! 0" "\<lambda>row. row ! 0"
      "ex_left\<lparr>rows := []\<rparr>" "[''index'', ''distance'', ''id'', ''mag_2'', ''name'', ''mag_3'']"]
    empty_catalogs [of "ex_right\<lparr>rows := []\<rparr>" "\<lambda>catalog c. (0, 0)" "\<lambda>row. row ! 0"
      "\<lambda>row. row ! 0" ex_left "[]"]
  show ?thesis using n r by (simp add: del_index_distance_def)
qed

text \<open>
  Claim C6. For fixed catalogs the number of rows of the result does not decrease when
  the cutoff grows: if the call with cutoff \<open>t1\<close> returns a table, so does the call with a
  cutoff \<open>t2 \<ge> t1\<close>, with at least as many rows. The cutoff is the parameter of
  \<open>join_catalogs_with\<close>; the source fixes it at 3 arc seconds.
\<close>

theorem rows_monotone_in_cutoff:
  assumes "t1 \<le> t2" and "join_catalogs_with t1 it L R = Inr T1"
  shows "\<exists>T2. join_catalogs_with t2 it L R = Inr T2 \<and> length (rows T1) \<le> length (rows T2)"
proof -
  let ?T2 = "T1\<lparr>rows := map (\<lambda>w. rows L ! w @ rows R ! fst (it ! w)) (winners t2 it)\<rparr>"
  have "join_catalogs_with t2 it L R = Inr ?T2"
    using assms(2) by (rule join_cutoff_independent)
  moreover have "length (winners t1 it) \<le> length (winners t2 it)"
  proof -
    have "winners t1 it = filter (\<lambda>w. snd (it ! w) < t1) (winners t2 it)"
      using assms(1) by (auto simp: winners_filter intro: filter_cong)
    then show ?thesis by (metis length_filter_le)
  qed
  ultimately show ?thesis using join_rows [OF assms(2)] by simp
qed

theorem rows_monotone_in_cutoff_witness:
  "(1 / 3600 :: real) \<le> arcsec3
   \<and> join_catalogs_with (1 / 3600) ex_index ex_left ex_right = Inr (ex_merged\<lparr>rows := []\<rparr>)
   \<and> (\<exists>T2. join_catalogs_with arcsec3 ex_index ex_left ex_right = Inr T2
            \<and> length (rows (ex_merged\<lparr>rows := []\<rparr>)) \<le> length (rows T2))"
proof -
  have h: "(1 / 3600 :: real) \<le> arcsec3" by (simp add: arcsec3_def)
  have ok: "join_catalogs_with (1 / 3600) ex_index ex_left ex_right = Inr (ex_merged\<lparr>rows := []\<rparr>)"
    by (simp add: join_defs ex_defs)
  from rows_monotone_in_cutoff [OF h ok] h ok show ?thesis by simp
qed

text \<open>
  Claim C7. When the left and the right catalog both have a column \<open>n\<close>, every row of the
  result has the left value under \<open>n_2\<close> and the right value under \<open>n_3\<close>, two different
  names. Every column of the left catalog and every column of the right catalog is a
  column of the result, under its own name or with the suffix, and holds the cell of the
  left record and of the right record of that row; the column names of the result are
  pairwise different.
\<close>

theorem colliding_fields_both_kept:
  assumes ok: "join_catalogs_with sep it L R = Inr T"
    and wfL: "wf_table L" and wfR: "wf_table R"
    and k: "k < length (rows T)"
    and nL: "n \<in> set (colnames L)" and nR: "n \<in> set (colnames R)"
  shows "rows T ! k = rows L ! (winners sep it ! k) @ rows R ! fst (it ! (winners sep it ! k))
       \<and> cell (colnames T) (rows T ! k) (n @ ''_2'')
           = Inr (rows L ! (winners sep it ! k) ! col_pos n (colnames L))
       \<and> cell (colnames T) (rows T ! k) (n @ ''_3'')
           = Inr (rows R ! fst (it ! (winners sep it ! k)) ! col_pos n (colnames R))
       \<and> n @ ''_2'' \<noteq> n @ ''_3''
       \<and> (\<forall>m \<in> set (colnames L).
             cell (colnames T) (rows T ! k) (uniq_col_name ''2'' (colnames R) m)
               = Inr (rows L ! (winners sep it ! k) ! col_pos m (colnames L)))
       \<and> (\<forall>m \<in> set (colnames R).
             cell (colnames T) (rows T ! k) (uniq_col_name ''3'' (colnames L) m)
               = Inr (rows R ! fst (it ! (winners sep it ! k)) ! col_pos m (colnames R)))
       \<and> distinct (colnames T)
       \<and> length (colnames T) = length (colnames L) + length (colnames R)"
proof -
  let ?w = "winners sep it ! k"
  let ?l = "rows L ! ?w" and ?r = "rows R ! fst (it ! ?w)"
  let ?f = "uniq_col_name ''2'' (colnames R)" and ?g = "uniq_col_name ''3'' (colnames L)"
  have rowsT: "rows T = map (\<lambda>w. rows L ! w @ rows R ! fst (it ! w)) (winners sep it)"
    using ok by (rule join_rows)
  then have kw: "k < length (winners sep it)" using k by simp
  then have row: "rows T ! k = ?l @ ?r" using rowsT by simp
  have w: "?w < length it" using kw winners_bound [of ?w sep it] by simp
  have lenL: "length (rows L) = length it"
    and inR: "list_all (\<lambda>i. i < length (rows R)) (map fst it)"
    using ok by (auto simp: join_catalogs_with_Inr)
  have "fst (it ! ?w) < length (rows R)"
    using inR w by (simp add: list_all_length)
  then have lr: "length ?r = length (colnames R)" using wfR by (rule wf_table_row [rotated])
  have ll: "length ?l = length (colnames L)"
    using wfL w lenL by (intro wf_table_row) simp_all
  note cn = join_colnames [OF ok]
  have dist: "distinct (map ?f (colnames L) @ map ?g (colnames R))"
    using cn(1,2) by simp
  have left: "cell (colnames T) (rows T ! k) (?f m) = Inr (?l ! col_pos m (colnames L))"
    if "m \<in> set (colnames L)" for m
    unfolding cn(1) row using dist that ll by (rule left_cell)
  have right: "cell (colnames T) (rows T ! k) (?g m) = Inr (?r ! col_pos m (colnames R))"
    if "m \<in> set (colnames R)" for m
    unfolding cn(1) row using dist that by (rule right_cell) (simp add: ll)
  have f: "?f n = n @ ''_2''" and g: "?g n = n @ ''_3''"
    using nL nR by (simp_all add: uniq_col_name_def)
  have "length (colnames T) = length (colnames L) + length (colnames R)"
    unfolding cn(1) by simp
  then show ?thesis
    using row left [OF nL] right [OF nR] left right cn(2) unfolding f g by simp
qed

theorem colliding_fields_both_kept_witness:
  "join_catalogs_with arcsec3 ex_index ex_left ex_right = Inr ex_merged
   \<and> wf_table ex_left \<and> wf_table ex_right
   \<and> winners arcsec3 ex_index ! 0 = 1 \<and> fst (ex_index ! 1) = 0
   \<and> cell (colnames ex_merged) (rows ex_merged ! 0) ''mag_2'' = Inr 152
   \<and> cell (colnames ex_merged) (rows ex_merged ! 0) ''mag_3'' = Inr 150"
proof -
  have wf: "wf_table ex_left" "wf_table ex_right"
    by (simp_all add: wf_table_def ex_defs)
  have k: "0 < length (rows ex_merged)" by (simp add: ex_defs)
  have n: "''mag'' \<in> set (colnames ex_left)" "''mag'' \<in> set (colnames ex_right)"
    by (simp_all add: ex_defs)
  have w: "winners arcsec3 ex_index ! 0 = 1"
    by (simp add: winners_def position_rows_def ex_defs sort_rows_def select_rows_def
        mask_select_def mask_mult_def good_match_def nearby_def arcsec3_def upt_rec)
  have r: "fst (ex_index ! 1) = 0" by (simp add: ex_defs)
  note t = colliding_fields_both_kept [OF ex_join wf k n, unfolded w r]
  have a: "cell (colnames ex_merged) (rows ex_merged ! 0) (''mag'' @ ''_2'')
      = Inr (rows ex_left ! 1 ! col_pos ''mag'' (colnames ex_left))"
    using t by (rule conjunct2 [THEN conjunct1])
  have b: "cell (colnames ex_merged) (rows ex_merged ! 0) (''mag'' @ ''_3'')
      = Inr (rows ex_right ! 0 ! col_pos ''mag'' (colnames ex_right))"
    using t by (rule conjunct2 [THEN conjunct2, THEN conjunct1])
  have a': "cell (colnames ex_merged) (rows ex_merged ! 0) ''mag_2'' = Inr 152"
    using a by (simp add: ex_left_def)
  have b': "cell (colnames ex_merged) (rows ex_merged ! 0) ''mag_3'' = Inr 150"
    using b by (simp add: ex_right_def)
  show ?thesis using ex_join wf w r a' b' by simp
qed

text \<open>
  Claim C9. The rows of the result are in ascending order of their right index, strictly.
\<close>

theorem rows_ascending_in_right_index:
  assumes "join_catalogs_with sep it L R = Inr T"
  shows "rows T = map (\<lambda>w. rows L ! w @ rows R ! fst (it ! w)) (winners sep it)
       \<and> sorted_wrt (<) (map (\<lambda>w. fst (it ! w)) (winners sep it))"
  using join_rows [OF assms] winners_strictly_sorted [of it sep] by simp

theorem rows_ascending_in_right_index_witness:
  "join_catalogs_with arcsec3 ex_index ex_left ex_right = Inr ex_merged
   \<and> winners arcsec3 ex_index = [1, 2]
   \<and> sorted_wrt (<) (map (\<lambda>w. fst (ex_index ! w)) (winners arcsec3 ex_index))"
proof -
  have "winners arcsec3 ex_index = [1, 2]"
    by (simp add: winners_def position_rows_def ex_defs sort_rows_def select_rows_def
        mask_select_def mask_mult_def good_match_def nearby_def arcsec3_def upt_rec)
  then show ?thesis using rows_ascending_in_right_index [OF ex_join] ex_join by simp
qed

text \<open>
  Claim C10. When the closest left record \<open>p\<close> of a right record is not within the cutoff,
  the result has no row for that right record: no other candidate takes its place. The
  same holds for the left record that the deduplication keeps for a right record.
\<close>

theorem no_promotion_beyond_cutoff:
  assumes ok: "join_catalogs_with sep it L R = Inr T"
    and p: "p < length it"
    and closest: "\<forall>q < length it. fst (it ! q) = fst (it ! p) \<longrightarrow> snd (it ! p) \<le> snd (it ! q)"
    and beyond: "\<not> snd (it ! p) < sep"
  shows "rows T = map (\<lambda>w. rows L ! w @ rows R ! fst (it ! w)) (winners sep it)
       \<and> (\<forall>w \<in> set (winners sep it). fst (it ! w) \<noteq> fst (it ! p))
       \<and> (\<forall>k \<in> set (dedup_positions it). \<not> snd (it ! k) < sep \<longrightarrow>
             (\<forall>w \<in> set (winners sep it). fst (it ! w) \<noteq> fst (it ! k)))"
proof -
  have a: "fst (it ! w) \<noteq> fst (it ! p)" if w: "w \<in> set (winners sep it)" for w
  proof
    assume eq: "fst (it ! w) = fst (it ! p)"
    have "w < length it" using w by (rule winners_bound)
    then have "snd (it ! p) \<le> snd (it ! w)" using closest eq by simp
    moreover have "snd (it ! w) < sep" using w by (simp add: winners_filter)
    ultimately show False using beyond by simp
  qed
  have b: "fst (it ! w) \<noteq> fst (it ! k)"
    if k: "k \<in> set (dedup_positions it)" and far: "\<not> snd (it ! k) < sep"
      and w: "w \<in> set (winners sep it)" for k w
  proof
    assume eq: "fst (it ! w) = fst (it ! k)"
    have "w \<in> set (dedup_positions it)" and near: "snd (it ! w) < sep"
      using w by (simp_all add: winners_filter)
    then have "w = k" using k eq dedup_positions_unique [of w it k] by simp
    then show False using near far by simp
  qed
  have a': "\<forall>w \<in> set (winners sep it). fst (it ! w) \<noteq> fst (it ! p)"
    using a by simp
  have b': "\<forall>k \<in> set (dedup_positions it). \<not> snd (it ! k) < sep \<longrightarrow>
             (\<forall>w \<in> set (winners sep it). fst (it ! w) \<noteq> fst (it ! k))"
    using b by simp
  show ?thesis by (intro conjI join_rows [OF ok] a' b')
qed

theorem no_promotion_beyond_cutoff_witness:
  "join_catalogs_with arcsec3 ex_index_far ex_left ex_right
     = Inr \<lparr>colnames = [''id'', ''mag_2'', ''name'', ''mag_3''], rows = [[3, 131, 8, 130]]\<rparr>
   \<and> \<not> snd (ex_index_far ! 1) < arcsec3
   \<and> list_all (\<lambda>w. fst (ex_index_far ! w) \<noteq> fst (ex_index_far ! 1)) (winners arcsec3 ex_index_far)"
proof -
  have ok: "join_catalogs_with arcsec3 ex_index_far ex_left ex_right
     = Inr \<lparr>colnames = [''id'', ''mag_2'', ''name'', ''mag_3''], rows = [[3, 131, 8, 130]]\<rparr>"
    by (simp add: join_defs ex_defs)
  have p: "(1::nat) < length ex_index_far" by (simp add: ex_defs)
  have closest: "\<forall>q < length ex_index_far.
      fst (ex_index_far ! q) = fst (ex_index_far ! 1) \<longrightarrow> snd (ex_index_far ! 1) \<le> snd (ex_index_far ! q)"
    by (simp add: ex_defs less_Suc_eq numeral_3_eq_3)
  have beyond: "\<not> snd (ex_index_far ! 1) < arcsec3" by (simp add: ex_defs arcsec3_def)
  have "\<forall>w \<in> set (winners arcsec3 ex_index_far). fst (ex_index_far ! w) \<noteq> fst (ex_index_far ! 1)"
    using no_promotion_beyond_cutoff [OF ok p closest beyond]
    by (rule conjunct2 [THEN conjunct1])
  then show ?thesis using ok beyond
    by (simp add: list_all_iff)
qed

end
